theory Spec2Isabelle
  imports Main "HOL-Library.Char_ord" "HOL-Library.List_Lexorder"
begin

section \<open>JavaScript values and \<open>JSON.stringify\<close>\<close>

text \<open>
  \<open>src/http.ts\<close> derives the request identifier with
  \<open>JSON.stringify({ method, url, params, data })\<close>. The fields \<open>params\<close> and \<open>data\<close>
  have type \<open>any\<close>, so the model needs JavaScript values: \<open>undefined\<close>, \<open>null\<close>,
  booleans, numbers, strings, arrays and plain objects. An object is the list of its own
  enumerable string-keyed properties in the order \<open>JSON.stringify\<close> enumerates them
  (for keys that are not array indices this is the insertion order). Numbers are the
  integral ones, which \<open>Number::toString\<close> prints in plain decimal; strings are lists of
  8-bit code units. Functions, symbols, \<open>toJSON\<close> methods, \<open>BigInt\<close> and cyclic values
  are outside the model.
\<close>

datatype jsval =
    Undefined
  | Null
  | Bool bool
  | Num int
  | Str string
  | Arr "jsval list"
  | Obj "(string \<times> jsval) list"

definition hexdigit :: "nat \<Rightarrow> char" where
  "hexdigit n = (''0123456789abcdef'') ! n"

text \<open>\<open>QuoteJSONString\<close> of ECMAScript, one code unit at a time.\<close>

definition QuoteJSONChar :: "char \<Rightarrow> string" where
  "QuoteJSONChar c =
     (if c = CHR 0x08 then [CHR 0x5C, CHR ''b'']
      else if c = CHR 0x09 then [CHR 0x5C, CHR ''t'']
      else if c = CHR 0x0A then [CHR 0x5C, CHR ''n'']
      else if c = CHR 0x0C then [CHR 0x5C, CHR ''f'']
      else if c = CHR 0x0D then [CHR 0x5C, CHR ''r'']
      else if c = CHR 0x22 then [CHR 0x5C, CHR 0x22]
      else if c = CHR 0x5C then [CHR 0x5C, CHR 0x5C]
      else if (of_char c :: nat) < 32
        then [CHR 0x5C, CHR ''u'', CHR ''0'', CHR ''0'',
              hexdigit (of_char c div 16), hexdigit (of_char c mod 16)]
      else [c])"

definition QuoteJSONString :: "string \<Rightarrow> string" where
  "QuoteJSONString s = CHR 0x22 # concat (map QuoteJSONChar s) @ [CHR 0x22]"

definition digit_char :: "nat \<Rightarrow> char" where
  "digit_char n = (''0123456789'') ! n"

fun digits :: "nat \<Rightarrow> string" where
  "digits n =
     (if n < 10 then [digit_char n] else digits (n div 10) @ [digit_char (n mod 10)])"

definition NumberToString :: "int \<Rightarrow> string" where
  "NumberToString i = (if i < 0 then CHR ''-'' # digits (nat (- i)) else digits (nat i))"

fun join :: "string list \<Rightarrow> string" where
  "join [] = []"
| "join [x] = x"
| "join (x # y # zs) = x @ CHR '','' # join (y # zs)"

text \<open>
  \<open>SerializeJSONProperty\<close> without a replacer and without indentation: \<open>undefined\<close> has
  no serialization (\<open>None\<close>), an array prints \<open>null\<close> in its place, an object leaves the
  property out.
\<close>

fun SerializeJSONProperty :: "jsval \<Rightarrow> string option" where
  "SerializeJSONProperty Undefined = None"
| "SerializeJSONProperty Null = Some ''null''"
| "SerializeJSONProperty (Bool b) = Some (if b then ''true'' else ''false'')"
| "SerializeJSONProperty (Num n) = Some (NumberToString n)"
| "SerializeJSONProperty (Str s) = Some (QuoteJSONString s)"
| "SerializeJSONProperty (Arr xs) =
     Some (CHR ''['' #
       join (map (\<lambda>x. case SerializeJSONProperty x of None \<Rightarrow> ''null'' | Some t \<Rightarrow> t) xs)
       @ '']'')"
| "SerializeJSONProperty (Obj ps) =
     Some (CHR ''{'' #
       join (concat (map (\<lambda>(k, v). case SerializeJSONProperty v of
                             None \<Rightarrow> []
                           | Some t \<Rightarrow> [QuoteJSONString k @ CHR '':'' # t]) ps))
       @ ''}'')"

definition SerializeJSONObject :: "(string \<times> jsval) list \<Rightarrow> string" where
  "SerializeJSONObject ps =
     CHR ''{'' #
       join (concat (map (\<lambda>(k, v). case SerializeJSONProperty v of
                             None \<Rightarrow> []
                           | Some t \<Rightarrow> [QuoteJSONString k @ CHR '':'' # t]) ps))
       @ ''}''"


text \<open>
  The specification's notion of equality of descriptors, "under canonical
  serialization (field order fixed, e.g. alphabetical)": the keys of every object are
  put in alphabetical order before two values are compared.
\<close>

fun spec_canonical :: "jsval \<Rightarrow> jsval" where
  "spec_canonical (Arr xs) = Arr (map spec_canonical xs)"
| "spec_canonical (Obj ps) = Obj (sort_key fst (map (\<lambda>(k, v). (k, spec_canonical v)) ps))"
| "spec_canonical v = v"

section \<open>The request configuration\<close>

text \<open>
  \<open>RequestConfig extends AxiosRequestConfig\<close>. Every field is optional in the source; an
  absent field reads as \<open>undefined\<close>. \<open>signal\<close> holds the identity of an
  \<open>AbortController\<close>; \<open>others\<close> stands for the remaining transport options.
\<close>

record RequestConfig =
  "method" :: "string option"
  url :: "string option"
  params :: jsval
  data :: jsval
  headers :: jsval
  timeout :: jsval
  cancelToken :: jsval
  signal :: "nat option"
  others :: "(string \<times> jsval) list"

definition emptyConfig :: RequestConfig where
  "emptyConfig = \<lparr> method = None, url = None, params = Undefined, data = Undefined,
     headers = Undefined, timeout = Undefined, cancelToken = Undefined, signal = None,
     others = [] \<rparr>"

definition str_or_undefined :: "string option \<Rightarrow> jsval" where
  "str_or_undefined x = (case x of None \<Rightarrow> Undefined | Some s \<Rightarrow> Str s)"

text \<open>\<open>getRequestId\<close>, lines 29 to 32.\<close>

definition getRequestId :: "RequestConfig \<Rightarrow> string" where
  "getRequestId config =
     SerializeJSONObject
       [(''method'', str_or_undefined (method config)),
        (''url'', str_or_undefined (url config)),
        (''params'', params config),
        (''data'', data config)]"


text \<open>
  The specification's "structurally equal" descriptors, and the relation that the keys
  of every object of two values come in the same order.
\<close>

definition spec_same_descriptor :: "RequestConfig \<Rightarrow> RequestConfig \<Rightarrow> bool" where
  "spec_same_descriptor c1 c2 =
     (method c1 = method c2 \<and> url c1 = url c2 \<and>
      spec_canonical (params c1) = spec_canonical (params c2) \<and>
      spec_canonical (data c1) = spec_canonical (data c2))"

fun same_key_order :: "jsval \<Rightarrow> jsval \<Rightarrow> bool" where
  "same_key_order (Arr xs) (Arr ys) = list_all2 same_key_order xs ys"
| "same_key_order (Obj ps) (Obj qs) =
     (map fst ps = map fst qs \<and> list_all2 (\<lambda>p q. same_key_order (snd p) (snd q)) ps qs)"
| "same_key_order v w = True"

section \<open>The \<open>Map\<close> of pending requests\<close>

text \<open>
  A JavaScript \<open>Map\<close> as ECMAScript specifies it: a list of entries that only grows;
  \<open>delete\<close> empties the first entry with the key (\<open>None\<close>), \<open>set\<close> overwrites the value
  of the first entry with the key or appends a new entry, and \<open>forEach\<close> walks the list
  by index.
\<close>

type_synonym 'v MapData = "(string \<times> 'v) option list"

fun Map_has :: "'v MapData \<Rightarrow> string \<Rightarrow> bool" where
  "Map_has [] key = False"
| "Map_has (None # es) key = Map_has es key"
| "Map_has (Some (k, v) # es) key = (if k = key then True else Map_has es key)"

fun Map_get :: "'v MapData \<Rightarrow> string \<Rightarrow> 'v option" where
  "Map_get [] key = None"
| "Map_get (None # es) key = Map_get es key"
| "Map_get (Some (k, v) # es) key = (if k = key then Some v else Map_get es key)"

fun Map_delete :: "'v MapData \<Rightarrow> string \<Rightarrow> 'v MapData" where
  "Map_delete [] key = []"
| "Map_delete (None # es) key = None # Map_delete es key"
| "Map_delete (Some (k, v) # es) key =
     (if k = key then None # es else Some (k, v) # Map_delete es key)"

fun Map_set :: "'v MapData \<Rightarrow> string \<Rightarrow> 'v \<Rightarrow> 'v MapData" where
  "Map_set [] key value = [Some (key, value)]"
| "Map_set (None # es) key value = None # Map_set es key value"
| "Map_set (Some (k, v) # es) key value =
     (if k = key then Some (key, value) # es else Some (k, v) # Map_set es key value)"

text \<open>The entries a \<open>Map\<close> holds: the ones that are not emptied.\<close>

fun Map_entries :: "'v MapData \<Rightarrow> (string \<times> 'v) list" where
  "Map_entries [] = []"
| "Map_entries (None # es) = Map_entries es"
| "Map_entries (Some e # es) = e # Map_entries es"

definition Map_size :: "'v MapData \<Rightarrow> nat" where
  "Map_size es = length (Map_entries es)"

section \<open>The client\<close>

text \<open>
  The state \<open>HttpClient\<close> works on: its field \<open>pendingRequests\<close>, and of the heap the
  \<open>AbortController\<close> objects, each known by the number of its allocation
  (\<open>allocated\<close> counts them, \<open>aborted\<close> holds those whose signal has fired). \<open>trace\<close>
  records, in order, what the client did to controllers and to the table.
\<close>

datatype effect = Abort nat | TableDelete string | TableSet string nat

record state =
  pendingRequests :: "nat MapData"
  aborted :: "nat set"
  allocated :: nat
  trace :: "effect list"

text \<open>The constructor, lines 24 to 26.\<close>

definition constructor :: state where
  "constructor = \<lparr> pendingRequests = [], aborted = {}, allocated = 0, trace = [] \<rparr>"

definition abort :: "nat \<Rightarrow> state \<Rightarrow> state" where
  "abort controller s =
     s\<lparr> aborted := insert controller (aborted s), trace := trace s @ [Abort controller] \<rparr>"

definition pending_delete :: "string \<Rightarrow> state \<Rightarrow> state" where
  "pending_delete requestId s =
     s\<lparr> pendingRequests := Map_delete (pendingRequests s) requestId,
        trace := trace s @ [TableDelete requestId] \<rparr>"

definition pending_set :: "string \<Rightarrow> nat \<Rightarrow> state \<Rightarrow> state" where
  "pending_set requestId controller s =
     s\<lparr> pendingRequests := Map_set (pendingRequests s) requestId controller,
        trace := trace s @ [TableSet requestId controller] \<rparr>"

text \<open>
  \<open>cancelAllPendingRequests\<close>, lines 35 to 40: \<open>forEach\<close> reads the entry list by index,
  and the callback aborts the controller and deletes the key it was called with.
\<close>

function cancelAll_loop :: "nat \<Rightarrow> state \<Rightarrow> state" where
  "cancelAll_loop index s =
     (if index < length (pendingRequests s) then
        (case pendingRequests s ! index of
           None \<Rightarrow> cancelAll_loop (Suc index) s
         | Some (requestId, controller) \<Rightarrow>
             cancelAll_loop (Suc index) (pending_delete requestId (abort controller s)))
      else s)"
  by pat_completeness auto
termination
proof (relation "measure (\<lambda>(index, s). length (pendingRequests s) - index)")
  show "wf (measure (\<lambda>(index, s). length (pendingRequests s) - index))"
    by simp
next
  fix index :: nat and s :: state
  assume "index < length (pendingRequests s)"
  then show "((Suc index, s), (index, s))
      \<in> measure (\<lambda>(index, s). length (pendingRequests s) - index)"
    by simp
next
  fix index :: nat and s :: state and x2 :: "string \<times> nat" and requestId controller
  assume a: "index < length (pendingRequests s)"
  have len: "length (Map_delete es k) = length es" for es :: "nat MapData" and k
    by (induction es k rule: Map_delete.induct) simp_all
  from a show "((Suc index, pending_delete requestId (abort controller s)), (index, s))
      \<in> measure (\<lambda>(index, s). length (pendingRequests s) - index)"
    by (simp add: pending_delete_def abort_def len)
qed

definition cancelAllPendingRequests :: "state \<Rightarrow> state" where
  "cancelAllPendingRequests s = cancelAll_loop 0 s"

text \<open>
  What \<open>axios\<close> settles with: a response, of which the client reads \<open>data\<close>
  (\<open>response_data\<close> here), or a thrown error, read through \<open>CustomAxiosError\<close>.
\<close>

record 'r AxiosResponse =
  response_data :: 'r
  response_status :: int

record CustomAxiosError =
  name :: string
  message :: string
  isCanceled :: "bool option"

datatype 'r settled = Resolved "'r AxiosResponse" | Rejected CustomAxiosError

text \<open>
  An \<open>async\<close> function runs without interruption up to its first \<open>await\<close>. \<open>request\<close>
  has exactly one, at the call of \<open>axios\<close> (line 63), so it is two uninterrupted
  segments. \<open>request_begin\<close> is lines 44 to 66: it returns the suspended frame (the
  locals \<open>requestId\<close> and \<open>controller\<close>, and the argument handed to \<open>axios\<close>).
  \<open>request_resume\<close> is lines 67 to 84, run when \<open>axios\<close> settles: it returns what the
  caller's promise settles with, \<open>Inr\<close> the returned value or \<open>Inl\<close> the thrown error.
\<close>

record frame =
  requestId :: string
  controller :: nat
  axios_arg :: RequestConfig

definition cancel_previous :: "string \<Rightarrow> state \<Rightarrow> state" where
  "cancel_previous rid s =
     (if Map_has (pendingRequests s) rid then
        (case Map_get (pendingRequests s) rid of
           Some c \<Rightarrow> pending_delete rid (abort c s)
         | None \<Rightarrow> s)
      else s)"

definition request_begin :: "RequestConfig \<Rightarrow> state \<Rightarrow> frame \<times> state" where
  "request_begin config s =
     (let rid = getRequestId config;
          s1 = cancel_previous rid s;
          c = allocated s1;
          s2 = s1\<lparr> allocated := Suc (allocated s1) \<rparr>;
          s3 = pending_set rid c s2
      in (\<lparr> requestId = rid, controller = c, axios_arg = config\<lparr> signal := Some c \<rparr> \<rparr>, s3))"

definition request_resume ::
  "frame \<Rightarrow> 'r settled \<Rightarrow> state \<Rightarrow> (CustomAxiosError + 'r) \<times> state" where
  "request_resume f outcome s =
     (case outcome of
        Resolved response \<Rightarrow>
          (Inr (response_data response), pending_delete (requestId f) s)
      | Rejected err \<Rightarrow>
          (let err' = (if name err = ''AbortError'' then err\<lparr> isCanceled := Some True \<rparr> else err)
           in (Inl err', pending_delete (requestId f) s)))"

text \<open>
  The wrappers, lines 88 to 105. \<open>{ ...config, method: 'GET', url }\<close> copies the
  fields of \<open>config\<close> (none when \<open>config\<close> is \<open>undefined\<close>) and then writes \<open>method\<close> and
  \<open>url\<close>.
\<close>

definition spread :: "RequestConfig option \<Rightarrow> RequestConfig" where
  "spread config = (case config of None \<Rightarrow> emptyConfig | Some c \<Rightarrow> c)"

definition get :: "string \<Rightarrow> RequestConfig option \<Rightarrow> state \<Rightarrow> frame \<times> state" where
  "get u config = request_begin ((spread config)\<lparr> method := Some ''GET'', url := Some u \<rparr>)"

definition post :: "string \<Rightarrow> jsval \<Rightarrow> RequestConfig option \<Rightarrow> state \<Rightarrow> frame \<times> state" where
  "post u d config =
     request_begin ((spread config)\<lparr> method := Some ''POST'', url := Some u, data := d \<rparr>)"

definition put :: "string \<Rightarrow> jsval \<Rightarrow> RequestConfig option \<Rightarrow> state \<Rightarrow> frame \<times> state" where
  "put u d config =
     request_begin ((spread config)\<lparr> method := Some ''PUT'', url := Some u, data := d \<rparr>)"

definition delete :: "string \<Rightarrow> RequestConfig option \<Rightarrow> state \<Rightarrow> frame \<times> state" where
  "delete u config =
     request_begin ((spread config)\<lparr> method := Some ''DELETE'', url := Some u \<rparr>)"

text \<open>
  The operations that change the table, in any order: the first segment of a
  \<open>request\<close>, the second segment of a suspended one, and \<open>cancelAllPendingRequests\<close>.
\<close>

datatype 'r operation =
    Dispatch RequestConfig
  | Settlement frame "'r settled"
  | CancelAll

fun step :: "'r operation \<Rightarrow> state \<Rightarrow> state" where
  "step (Dispatch config) s = snd (request_begin config s)"
| "step (Settlement f outcome) s = snd (request_resume f outcome s)"
| "step CancelAll s = cancelAllPendingRequests s"

fun run :: "'r operation list \<Rightarrow> state \<Rightarrow> state" where
  "run [] s = s"
| "run (op # ops) s = run ops (step op s)"

text \<open>No two entries of the table have the same key.\<close>

definition unique_fingerprints :: "state \<Rightarrow> bool" where
  "unique_fingerprints s = distinct (map fst (Map_entries (pendingRequests s)))"

section \<open>Example inputs\<close>

text \<open>\<open>GET /items?page=1\<close>, and errors as a transport throws them.\<close>

definition page1 :: RequestConfig where
  "page1 = emptyConfig\<lparr> method := Some ''GET'', url := Some ''/items'',
     params := Obj [(''page'', Num 1)] \<rparr>"

text \<open>
  \<open>axios\<close> rejects a request whose \<open>signal\<close> fired with its \<open>CanceledError\<close>, whose
  \<open>name\<close> is \<open>CanceledError\<close>; \<open>AbortError\<close> is the name of the \<open>DOMException\<close> that
  \<open>fetch\<close> itself throws.
\<close>

definition canceledError :: CustomAxiosError where
  "canceledError = \<lparr> name = ''CanceledError'', message = ''canceled'', isCanceled = None \<rparr>"

definition abortError :: CustomAxiosError where
  "abortError = \<lparr> name = ''AbortError'', message = ''canceled'', isCanceled = None \<rparr>"



text \<open>Two orders of the same query parameters; a body with \<open>undefined\<close> and one with \<open>null\<close>.\<close>

definition paramsAB :: RequestConfig where
  "paramsAB = emptyConfig\<lparr> method := Some ''GET'', url := Some ''/items'',
     params := Obj [(''a'', Num 1), (''b'', Num 2)] \<rparr>"

definition paramsBA :: RequestConfig where
  "paramsBA = emptyConfig\<lparr> method := Some ''GET'', url := Some ''/items'',
     params := Obj [(''b'', Num 2), (''a'', Num 1)] \<rparr>"



section \<open>Notions used in the proofs\<close>









section \<open>Properties of the \<open>Map\<close> operations and of the loop of \<open>forEach\<close>\<close>


lemma Map_get_entries: "Map_get es k = map_of (Map_entries es) k"
  by (induction es k rule: Map_get.induct) simp_all

lemma length_Map_delete: "length (Map_delete es k) = length es"
  by (induction es k rule: Map_delete.induct) simp_all

lemma keys_Map_delete_subset:
  "set (map fst (Map_entries (Map_delete es k))) \<subseteq> set (map fst (Map_entries es))"
  by (induction es k rule: Map_delete.induct) auto

lemma distinct_Map_delete:
  "distinct (map fst (Map_entries es)) \<Longrightarrow> distinct (map fst (Map_entries (Map_delete es k)))"
proof (induction es k rule: Map_delete.induct)
  case (3 k v es key)
  then show ?case using keys_Map_delete_subset [of es key] by auto
qed simp_all

lemma keys_Map_set:
  "set (map fst (Map_entries (Map_set es k v))) = insert k (set (map fst (Map_entries es)))"
  by (induction es k v rule: Map_set.induct) auto

lemma distinct_Map_set:
  "distinct (map fst (Map_entries es)) \<Longrightarrow> distinct (map fst (Map_entries (Map_set es k v)))"
proof (induction es k v rule: Map_set.induct)
  case (3 k v es key "value")
  then show ?case using keys_Map_set [of es key "value"] by auto
qed simp_all




lemma Map_delete_at:
  "i < length es \<Longrightarrow> es ! i = Some (k, v) \<Longrightarrow> \<forall>j<i. es ! j = None \<Longrightarrow>
     Map_delete es k = es[i := None]"
proof (induction es arbitrary: i)
  case Nil
  then show ?case by simp
next
  case (Cons e es)
  show ?case
  proof (cases i)
    case 0
    with Cons.prems show ?thesis by simp
  next
    case (Suc i')
    with Cons.prems have e: "e = None" by auto
    from Suc Cons.prems have "Map_delete es k = es[i' := None]"
      by (intro Cons.IH) auto
    with e Suc show ?thesis by simp
  qed
qed

lemma Map_entries_at:
  "i < length es \<Longrightarrow> es ! i = Some e \<Longrightarrow> \<forall>j<i. es ! j = None \<Longrightarrow>
     Map_entries es = e # Map_entries (es[i := None])"
proof (induction es arbitrary: i)
  case Nil
  then show ?case by simp
next
  case (Cons x es)
  show ?case
  proof (cases i)
    case 0
    with Cons.prems show ?thesis by simp
  next
    case (Suc i')
    with Cons.prems have x: "x = None" by auto
    from Suc Cons.prems have "Map_entries es = e # Map_entries (es[i' := None])"
      by (intro Cons.IH) auto
    with x Suc show ?thesis by simp
  qed
qed

lemma Map_entries_all_None: "\<forall>j<length es. es ! j = None \<Longrightarrow> Map_entries es = []"
proof (induction es)
  case Nil
  then show ?case by simp
next
  case (Cons x es)
  then have "x = None" by auto
  moreover from Cons.prems have "\<forall>j<length es. es ! j = None" by auto
  ultimately show ?case using Cons.IH by simp
qed

declare cancelAll_loop.simps [simp del]

lemma cancelAll_loop_spec:
  "\<forall>j<index. pendingRequests s ! j = None \<Longrightarrow>
     Map_entries (pendingRequests (cancelAll_loop index s)) = [] \<and>
     aborted (cancelAll_loop index s) = aborted s \<union> snd ` set (Map_entries (pendingRequests s)) \<and>
     [c. Abort c \<leftarrow> trace (cancelAll_loop index s)] =
       [c. Abort c \<leftarrow> trace s] @ map snd (Map_entries (pendingRequests s)) \<and>
     allocated (cancelAll_loop index s) = allocated s"
proof (induction index s rule: cancelAll_loop.induct)
  case (1 index s)
  let ?es = "pendingRequests s"
  show ?case
  proof (cases "index < length ?es")
    case False
    with "1.prems" have "Map_entries ?es = []"
      by (intro Map_entries_all_None) auto
    with False show ?thesis by (simp add: cancelAll_loop.simps [of index s])
  next
    case True
    show ?thesis
    proof (cases "?es ! index")
      case None
      with "1.prems" have "\<forall>j<Suc index. ?es ! j = None"
        by (auto simp: less_Suc_eq)
      with "1.IH"(1) [OF True None] True None show ?thesis
        by (simp add: cancelAll_loop.simps [of index s])
    next
      case (Some e)
      obtain requestId controller where e: "e = (requestId, controller)" by (cases e)
      let ?s' = "pending_delete requestId (abort controller s)"
      have del: "Map_delete ?es requestId = ?es[index := None]"
        by (rule Map_delete_at [OF True]) (use Some e "1.prems" in auto)
      have ent: "Map_entries ?es = (requestId, controller) # Map_entries (?es[index := None])"
        by (rule Map_entries_at [OF True]) (use Some e "1.prems" in auto)
      have pr: "pendingRequests ?s' = ?es[index := None]"
        by (simp add: pending_delete_def abort_def del)
      have "\<forall>j<Suc index. pendingRequests ?s' ! j = None"
        using "1.prems" True by (auto simp: pr less_Suc_eq nth_list_update)
      from "1.IH"(2) [OF True Some e [symmetric] this]
      have ih: "Map_entries (pendingRequests (cancelAll_loop (Suc index) ?s')) = [] \<and>
        aborted (cancelAll_loop (Suc index) ?s') =
           aborted ?s' \<union> snd ` set (Map_entries (pendingRequests ?s')) \<and>
        [c. Abort c \<leftarrow> trace (cancelAll_loop (Suc index) ?s')] =
           [c. Abort c \<leftarrow> trace ?s'] @ map snd (Map_entries (pendingRequests ?s')) \<and>
        allocated (cancelAll_loop (Suc index) ?s') = allocated ?s'" .
      have unf: "cancelAll_loop index s = cancelAll_loop (Suc index) ?s'"
        using True Some e by (simp add: cancelAll_loop.simps [of index s])
      show ?thesis
        unfolding unf using ih
        by (simp add: pr ent) (simp add: pending_delete_def abort_def)
    qed
  qed
qed

section \<open>Claims about the table and the dispatch\<close>

lemma unique_cancel_previous:
  "unique_fingerprints s \<Longrightarrow> unique_fingerprints (cancel_previous rid s)"
  by (simp add: unique_fingerprints_def cancel_previous_def pending_delete_def abort_def
      distinct_Map_delete split: option.splits)

lemma unique_request_begin:
  "unique_fingerprints s \<Longrightarrow> unique_fingerprints (snd (request_begin config s))"
proof -
  assume "unique_fingerprints s"
  then have "unique_fingerprints (cancel_previous (getRequestId config) s)"
    by (rule unique_cancel_previous)
  then show ?thesis
    by (simp add: request_begin_def Let_def pending_set_def unique_fingerprints_def
        distinct_Map_set)
qed

lemma unique_request_resume:
  "unique_fingerprints s \<Longrightarrow> unique_fingerprints (snd (request_resume f outcome s))"
  by (simp add: request_resume_def pending_delete_def unique_fingerprints_def Let_def
      distinct_Map_delete split: settled.splits)

lemma unique_cancelAll: "unique_fingerprints (cancelAllPendingRequests s)"
  using cancelAll_loop_spec [of 0 s]
  by (simp add: cancelAllPendingRequests_def unique_fingerprints_def)

lemma unique_step: "unique_fingerprints s \<Longrightarrow> unique_fingerprints (step op s)"
  by (cases op) (simp_all add: unique_request_begin unique_request_resume unique_cancelAll)

lemma unique_run: "unique_fingerprints s \<Longrightarrow> unique_fingerprints (run ops s)"
  by (induction ops arbitrary: s) (simp_all add: unique_step)

lemma unique_constructor: "unique_fingerprints constructor"
  by (simp add: unique_fingerprints_def constructor_def)


lemma allocated_cancel_previous: "allocated (cancel_previous rid s) = allocated s"
  by (simp add: cancel_previous_def pending_delete_def abort_def split: option.splits)

lemma AbortError_flagged:
  "name err = ''AbortError'' \<Longrightarrow>
     fst (request_resume f (Rejected err) s) = Inl (err\<lparr> isCanceled := Some True \<rparr>)"
  by (simp add: request_resume_def)

text \<open>
  C1. When a dispatch settles, the entry of its fingerprint should be removed only if
  it still holds that dispatch's own controller. The code deletes by key alone: after
  \<open>GET /items?page=1\<close> is dispatched twice and the first, superseded call settles, the
  entry of the second call is gone although that call is still in flight, and
  \<open>cancelAllPendingRequests\<close> no longer reaches it.
\<close>

theorem superseded_settlement_removes_current_entry:
  "(let (fA, s1) = request_begin page1 constructor;
        (fB, s2) = request_begin page1 s1;
        (r, s3) = request_resume fA (Rejected abortError :: unit settled) s2
    in requestId fA = requestId fB \<and> controller fA \<noteq> controller fB \<and>
       Map_get (pendingRequests s2) (requestId fB) = Some (controller fB) \<and>
       \<not> Map_has (pendingRequests s3) (requestId fB) \<and>
       controller fB \<notin> aborted s3 \<and>
       controller fB \<notin> aborted (cancelAllPendingRequests s3))"
  by code_simp

text \<open>
  C3. A dispatch whose transport call fails because its signal fired should hand the
  caller an error with \<open>isCanceled = true\<close>. The code sets the flag only on an error
  named \<open>AbortError\<close>: the error \<open>axios\<close> throws for the superseded first call is passed
  on with the flag unset.
\<close>

theorem axios_cancellation_not_flagged:
  "(let (fA, s1) = request_begin page1 constructor;
        (fB, s2) = request_begin page1 s1;
        (r, s3) = request_resume fA (Rejected canceledError :: unit settled) s2
    in controller fA \<in> aborted s2 \<and> r = Inl canceledError \<and>
       isCanceled canceledError = None)"
  by code_simp



text \<open>
  C5. \<open>cancelAllPendingRequests\<close> aborts the controller of every entry of the table,
  once each and in the order of the entries, and leaves the table empty.
\<close>

theorem cancelAll_complete:
  "Map_size (pendingRequests (cancelAllPendingRequests s)) = 0 \<and>
   aborted (cancelAllPendingRequests s) =
     aborted s \<union> snd ` set (Map_entries (pendingRequests s)) \<and>
   [c. Abort c \<leftarrow> trace (cancelAllPendingRequests s)] =
     [c. Abort c \<leftarrow> trace s] @ map snd (Map_entries (pendingRequests s))"
  using cancelAll_loop_spec [of 0 s]
  by (simp add: cancelAllPendingRequests_def Map_size_def)

theorem cancelAll_complete_witness:
  "Map_size (pendingRequests (run [Dispatch page1 :: unit operation] constructor)) = 1 \<and>
   Map_size (pendingRequests
     (cancelAllPendingRequests (run [Dispatch page1 :: unit operation] constructor))) = 0 \<and>
   aborted (cancelAllPendingRequests (run [Dispatch page1 :: unit operation] constructor)) = {0}"
proof -
  let ?s = "run [Dispatch page1 :: unit operation] constructor"
  have e: "Map_entries (pendingRequests ?s) = [(getRequestId page1, 0)]"
    by code_simp
  have a: "aborted ?s = {}"
    by code_simp
  from cancelAll_complete [of ?s] e a show ?thesis
    by (simp add: Map_size_def)
qed



text \<open>
  C7. After every sequence of dispatches, settlements and calls of
  \<open>cancelAllPendingRequests\<close> on a new client, no two entries of the table have the
  same fingerprint.
\<close>

theorem at_most_one_entry_per_fingerprint:
  "distinct (map fst (Map_entries (pendingRequests (run ops constructor))))"
proof -
  have "unique_fingerprints (run ops constructor)"
    using unique_constructor by (rule unique_run)
  then show ?thesis
    by (simp add: unique_fingerprints_def)
qed

theorem at_most_one_entry_per_fingerprint_witness:
  "Map_entries (pendingRequests
      (run [Dispatch page1 :: unit operation, Dispatch page1] constructor)) =
     [(getRequestId page1, 1)] \<and>
   distinct (map fst (Map_entries (pendingRequests
      (run [Dispatch page1 :: unit operation, Dispatch page1] constructor))))"
proof -
  have "Map_entries (pendingRequests
      (run [Dispatch page1 :: unit operation, Dispatch page1] constructor)) =
     [(getRequestId page1, 1)]"
    by code_simp
  with at_most_one_entry_per_fingerprint
    [of "[Dispatch page1 :: unit operation, Dispatch page1]"]
  show ?thesis by simp
qed

text \<open>
  C8. Two configurations with the same method, url, params and data should have the
  same fingerprint, and every other field should reach \<open>axios\<close> as the caller gave it.
  One field does not: \<open>{ ...config, signal }\<close> writes the signal of the client's own
  controller over a \<open>signal\<close> of the caller.
\<close>

theorem caller_signal_replaced:
  "method (page1\<lparr> signal := Some 7 \<rparr>) = method page1 \<and>
   url (page1\<lparr> signal := Some 7 \<rparr>) = url page1 \<and>
   params (page1\<lparr> signal := Some 7 \<rparr>) = params page1 \<and>
   data (page1\<lparr> signal := Some 7 \<rparr>) = data page1 \<and>
   signal (page1\<lparr> signal := Some 7 \<rparr>) \<noteq> signal page1 \<and>
   signal (axios_arg (fst (request_begin (page1\<lparr> signal := Some 7 \<rparr>) constructor))) \<noteq>
     signal (page1\<lparr> signal := Some 7 \<rparr>)"
  by code_simp

text \<open>
  C8, as the code has it: two configurations with the same method, url, params and
  data have the same fingerprint whatever their other fields are, and \<open>axios\<close> receives
  each configuration with every field as the caller gave it, \<open>signal\<close> apart, which is
  the signal of the new controller.
\<close>

theorem other_fields_not_in_fingerprint:
  assumes "method c1 = method c2" and "url c1 = url c2"
    and "params c1 = params c2" and "data c1 = data c2"
  shows "getRequestId c1 = getRequestId c2 \<and>
         axios_arg (fst (request_begin c1 s)) = c1\<lparr> signal := Some (allocated s) \<rparr> \<and>
         axios_arg (fst (request_begin c2 s)) = c2\<lparr> signal := Some (allocated s) \<rparr>"
  using assms
  by (simp add: getRequestId_def request_begin_def Let_def allocated_cancel_previous)

theorem other_fields_not_in_fingerprint_witness:
  "page1\<lparr> headers := Obj [(''Accept'', Str ''text/html'')], timeout := Num 5000 \<rparr> \<noteq> page1 \<and>
   getRequestId (page1\<lparr> headers := Obj [(''Accept'', Str ''text/html'')],
                        timeout := Num 5000 \<rparr>) = getRequestId page1 \<and>
   headers (axios_arg (fst (request_begin
       (page1\<lparr> headers := Obj [(''Accept'', Str ''text/html'')], timeout := Num 5000 \<rparr>)
       constructor))) = Obj [(''Accept'', Str ''text/html'')] \<and>
   timeout (axios_arg (fst (request_begin
       (page1\<lparr> headers := Obj [(''Accept'', Str ''text/html'')], timeout := Num 5000 \<rparr>)
       constructor))) = Num 5000"
proof -
  let ?c = "page1\<lparr> headers := Obj [(''Accept'', Str ''text/html'')], timeout := Num 5000 \<rparr>"
  have d: "?c \<noteq> page1"
    by (simp add: page1_def emptyConfig_def)
  from other_fields_not_in_fingerprint [of ?c page1 constructor] d show ?thesis
    by simp
qed

text \<open>
  C10. \<open>get\<close>, \<open>post\<close>, \<open>put\<close> and \<open>delete\<close> hand \<open>request\<close> a configuration whose
  method and url (and data, for \<open>post\<close> and \<open>put\<close>) are the wrapper's own, whatever the
  configuration of the caller holds in these fields; the fingerprint is computed from
  them.
\<close>

theorem wrappers_override_config:
  "method (axios_arg (fst (get u config s))) = Some ''GET'' \<and>
   url (axios_arg (fst (get u config s))) = Some u \<and>
   method (axios_arg (fst (post u d config s))) = Some ''POST'' \<and>
   url (axios_arg (fst (post u d config s))) = Some u \<and>
   data (axios_arg (fst (post u d config s))) = d \<and>
   method (axios_arg (fst (put u d config s))) = Some ''PUT'' \<and>
   url (axios_arg (fst (put u d config s))) = Some u \<and>
   data (axios_arg (fst (put u d config s))) = d \<and>
   method (axios_arg (fst (delete u config s))) = Some ''DELETE'' \<and>
   url (axios_arg (fst (delete u config s))) = Some u \<and>
   requestId (fst (get u config s)) =
     getRequestId ((spread config)\<lparr> method := Some ''GET'', url := Some u \<rparr>) \<and>
   requestId (fst (post u d config s)) =
     getRequestId ((spread config)\<lparr> method := Some ''POST'', url := Some u, data := d \<rparr>) \<and>
   requestId (fst (put u d config s)) =
     getRequestId ((spread config)\<lparr> method := Some ''PUT'', url := Some u, data := d \<rparr>) \<and>
   requestId (fst (delete u config s)) =
     getRequestId ((spread config)\<lparr> method := Some ''DELETE'', url := Some u \<rparr>)"
  by (simp add: get_def post_def put_def delete_def request_begin_def Let_def)

theorem wrappers_override_config_witness:
  "method (axios_arg (fst (get ''/items''
       (Some (emptyConfig\<lparr> method := Some ''POST'', url := Some ''/other'' \<rparr>)) constructor)))
     = Some ''GET'' \<and>
   url (axios_arg (fst (get ''/items''
       (Some (emptyConfig\<lparr> method := Some ''POST'', url := Some ''/other'' \<rparr>)) constructor)))
     = Some ''/items'' \<and>
   data (axios_arg (fst (post ''/items'' (Num 2)
       (Some (emptyConfig\<lparr> data := Num 1 \<rparr>)) constructor))) = Num 2"
  using wrappers_override_config
    [of "''/items''" "Some (emptyConfig\<lparr> method := Some ''POST'', url := Some ''/other'' \<rparr>)"
        constructor]
    wrappers_override_config
    [of "''/items''" "Some (emptyConfig\<lparr> data := Num 1 \<rparr>)" constructor "Num 2"]
  by simp

section \<open>\<open>JSON.stringify\<close> is injective on values without \<open>undefined\<close>\<close>




declare digits.simps [simp del]

















lemma SerializeJSONProperty_None_iff: "SerializeJSONProperty v = None \<longleftrightarrow> v = Undefined"
  by (cases v) simp_all















section \<open>Canonical form and key order\<close>

lemma stable_same_keys:
  "map fst xs = map fst ys \<Longrightarrow>
   (\<And>k. filter (\<lambda>p. fst p = k) xs = filter (\<lambda>p. fst p = k) ys) \<Longrightarrow> xs = ys"
proof (induction xs arbitrary: ys)
  case Nil
  then show ?case by simp
next
  case (Cons x xs)
  from Cons.prems(1) obtain y ys' where ys: "ys = y # ys'" "fst x = fst y" "map fst xs = map fst ys'"
    by (cases ys) auto
  from Cons.prems(2) [of "fst x"] ys have xy: "x = y" by simp
  have "filter (\<lambda>p. fst p = k) xs = filter (\<lambda>p. fst p = k) ys'" for k
    using Cons.prems(2) [of k] ys xy by (cases "fst y = k") simp_all
  with Cons.IH [OF ys(3)] have "xs = ys'" by simp
  with xy ys show ?case by simp
qed

lemma sort_key_same_keys:
  fixes xs ys :: "(string \<times> 'a) list"
  assumes "map fst xs = map fst ys" and "sort_key fst xs = sort_key fst ys"
  shows "xs = ys"
proof (rule stable_same_keys [OF assms(1)])
  fix k
  have "filter (\<lambda>p. fst p = k) (sort_key fst xs) = filter (\<lambda>p. fst p = k) xs"
    by (rule sort_key_stable)
  moreover have "filter (\<lambda>p. fst p = k) (sort_key fst ys) = filter (\<lambda>p. fst p = k) ys"
    by (rule sort_key_stable)
  ultimately show "filter (\<lambda>p. fst p = k) xs = filter (\<lambda>p. fst p = k) ys"
    using assms(2) by simp
qed

lemma same_order_members:
  assumes "list_all2 (\<lambda>p q. same_key_order (snd p) (snd q)) ps qs"
    and "map (\<lambda>(k, v). (k, spec_canonical v)) ps = map (\<lambda>(k, v). (k, spec_canonical v)) qs"
    and "\<forall>p\<in>set ps. \<forall>q. spec_canonical (snd p) = spec_canonical (snd q) \<longrightarrow>
      same_key_order (snd p) (snd q) \<longrightarrow> snd p = snd q"
  shows "ps = qs"
  using assms
proof (induction ps qs rule: list_all2_induct)
  case Nil
  then show ?case by simp
next
  case (Cons p ps q qs)
  from Cons.prems(1) have "fst p = fst q" "spec_canonical (snd p) = spec_canonical (snd q)"
    by (cases p; cases q; simp)+
  with Cons.hyps(1) Cons.prems(2) have "p = q" by (simp add: prod_eq_iff)
  moreover from Cons.prems Cons.IH have "ps = qs" by simp
  ultimately show ?case by simp
qed

lemma canonical_same_order:
  "spec_canonical v = spec_canonical w \<Longrightarrow> same_key_order v w \<Longrightarrow> v = w"
proof (induction v arbitrary: w)
  case (Arr xs)
  from Arr.prems(1) obtain ys where w: "w = Arr ys" by (cases w) simp_all
  with Arr.prems have m: "map spec_canonical xs = map spec_canonical ys"
    and l: "list_all2 same_key_order xs ys" by simp_all
  from l m Arr.IH have "xs = ys"
  proof (induction xs ys rule: list_all2_induct)
    case Nil
    then show ?case by simp
  next
    case (Cons x xs y ys)
    from Cons.prems(1) Cons.hyps(1) Cons.prems(2) [of x y] have "x = y" by simp
    moreover from Cons.prems Cons.IH have "xs = ys" by simp
    ultimately show ?case by simp
  qed
  with w show ?case by simp
next
  case (Obj ps)
  from Obj.prems(1) obtain qs where w: "w = Obj qs" by (cases w) simp_all
  let ?c = "\<lambda>(k, v). (k, spec_canonical v)"
  from Obj.prems w have s: "sort_key fst (map ?c ps) = sort_key fst (map ?c qs)"
    and k: "map fst ps = map fst qs"
    and l: "list_all2 (\<lambda>p q. same_key_order (snd p) (snd q)) ps qs" by simp_all
  have f: "map fst (map ?c zs) = map fst zs" for zs :: "(string \<times> jsval) list"
    by (induction zs) auto
  from k have "map fst (map ?c ps) = map fst (map ?c qs)" by (simp only: f)
  from sort_key_same_keys [OF this s] have m: "map ?c ps = map ?c qs" .
  have ih: "\<forall>p\<in>set ps. \<forall>q. spec_canonical (snd p) = spec_canonical (snd q) \<longrightarrow>
      same_key_order (snd p) (snd q) \<longrightarrow> snd p = snd q"
  proof (intro ballI allI impI)
    fix p q
    assume a: "p \<in> set ps" "spec_canonical (snd p) = spec_canonical (snd q)"
      "same_key_order (snd p) (snd q)"
    obtain k v where p: "p = (k, v)" by (cases p)
    then have "v \<in> Basic_BNFs.snds p" by simp
    from Obj.IH [OF a(1) this, of "snd q"] a(2,3) p show "snd p = snd q" by simp
  qed
  from l m ih have "ps = qs" by (rule same_order_members)
  with w show ?case by simp
next
  case Undefined
  then show ?case by (cases w) simp_all
next
  case Null
  then show ?case by (cases w) simp_all
next
  case (Bool b)
  then show ?case by (cases w) simp_all
next
  case (Num n)
  then show ?case by (cases w) simp_all
next
  case (Str s)
  then show ?case by (cases w) simp_all
qed

section \<open>Claims about the fingerprint\<close>

text \<open>
  C2. Descriptors that are equal once the keys of their objects are put in order
  should have the same fingerprint whatever the order of insertion. \<open>JSON.stringify\<close>
  prints the keys in the order of the object: \<open>{a: 1, b: 2}\<close> and \<open>{b: 2, a: 1}\<close> as
  query parameters give two fingerprints.
\<close>

theorem key_order_changes_fingerprint:
  "spec_same_descriptor paramsAB paramsBA \<and> getRequestId paramsAB \<noteq> getRequestId paramsBA"
  by code_simp

text \<open>
  C2, as the code has it: descriptors that are structurally equal and whose objects
  list their keys in the same order have the same fingerprint.
\<close>

theorem same_key_order_same_fingerprint:
  assumes "spec_same_descriptor c1 c2"
    and "same_key_order (params c1) (params c2)"
    and "same_key_order (data c1) (data c2)"
  shows "getRequestId c1 = getRequestId c2"
proof -
  from assms(1) have "spec_canonical (params c1) = spec_canonical (params c2)"
    and "spec_canonical (data c1) = spec_canonical (data c2)"
    by (simp_all add: spec_same_descriptor_def)
  with assms(2,3) have "params c1 = params c2" and "data c1 = data c2"
    by (simp_all add: canonical_same_order)
  with assms(1) show ?thesis
    by (simp add: getRequestId_def spec_same_descriptor_def)
qed

theorem same_key_order_same_fingerprint_witness:
  "spec_same_descriptor (paramsAB\<lparr> timeout := Num 5000 \<rparr>) paramsAB \<and>
   same_key_order (params (paramsAB\<lparr> timeout := Num 5000 \<rparr>)) (params paramsAB) \<and>
   same_key_order (data (paramsAB\<lparr> timeout := Num 5000 \<rparr>)) (data paramsAB) \<and>
   getRequestId (paramsAB\<lparr> timeout := Num 5000 \<rparr>) = getRequestId paramsAB"
proof -
  have a: "spec_same_descriptor (paramsAB\<lparr> timeout := Num 5000 \<rparr>) paramsAB"
    by (simp add: spec_same_descriptor_def)
  have b: "same_key_order (params (paramsAB\<lparr> timeout := Num 5000 \<rparr>)) (params paramsAB)"
    by (simp add: paramsAB_def)
  have c: "same_key_order (data (paramsAB\<lparr> timeout := Num 5000 \<rparr>)) (data paramsAB)"
    by (simp add: paramsAB_def emptyConfig_def)
  from same_key_order_same_fingerprint [OF a b c] a b c show ?thesis
    by blast
qed




end
